theory Spec2Isabelle
  imports Main "HOL-Library.Sublist" "HOL-Library.AList"
begin

section \<open>Python strings\<close>

text \<open>
  A Python \<open>str\<close> is modelled as a \<open>string\<close>, one \<open>char\<close> per code point, for the
  code points below 256. \<open>a in b\<close> on strings is \<open>sublist a b\<close>, \<open>s.startswith(p)\<close> is
  \<open>prefix p s\<close>, \<open>len\<close> is \<open>length\<close> and \<open>s[:n]\<close> is \<open>take n s\<close>.
\<close>

definition lower_char :: "char \<Rightarrow> char" where
  \<comment> \<open>\<open>str.lower\<close> on one code point below 256: A-Z and the Latin-1 capitals move up by 32.\<close>
  "lower_char c =
     (let n = (of_char c :: nat) in
      if (65 \<le> n \<and> n \<le> 90) \<or> (192 \<le> n \<and> n \<le> 222 \<and> n \<noteq> 215)
      then char_of (n + 32) else c)"

definition lower :: "string \<Rightarrow> string" where
  "lower s = map lower_char s"

definition is_space :: "char \<Rightarrow> bool" where
  \<comment> \<open>The code points below 256 that \<open>str.split()\<close> and \<open>str.strip()\<close> treat as whitespace.\<close>
  "is_space c =
     (let n = (of_char c :: nat) in
      (9 \<le> n \<and> n \<le> 13) \<or> (28 \<le> n \<and> n \<le> 32) \<or> n = 133 \<or> n = 160)"

definition is_line_boundary :: "char \<Rightarrow> bool" where
  \<comment> \<open>The code points below 256 at which \<open>str.splitlines()\<close> breaks a line.\<close>
  "is_line_boundary c =
     (let n = (of_char c :: nat) in
      (10 \<le> n \<and> n \<le> 13) \<or> (28 \<le> n \<and> n \<le> 30) \<or> n = 133)"

text \<open>
  \<open>str.splitlines()\<close>: a line ends at a line boundary, a carriage return followed by a
  line feed counts as one boundary, and a trailing piece is a line only when non-empty.
  The accumulator holds the current line reversed.
\<close>

fun splitlines_acc :: "string \<Rightarrow> string \<Rightarrow> string list" where
  "splitlines_acc acc [] = (if acc = [] then [] else [rev acc])"
| "splitlines_acc acc [c] =
     (if is_line_boundary c then [rev acc] else [rev (c # acc)])"
| "splitlines_acc acc (c # d # cs) =
     (if c = CHR 0x0D \<and> d = CHR 0x0A then rev acc # splitlines_acc [] cs
      else if is_line_boundary c then rev acc # splitlines_acc [] (d # cs)
      else splitlines_acc (c # acc) (d # cs))"

definition splitlines :: "string \<Rightarrow> string list" where
  "splitlines s = splitlines_acc [] s"

text \<open>\<open>str.split()\<close> with no argument: the maximal runs of non-whitespace.\<close>

fun split_acc :: "string \<Rightarrow> string \<Rightarrow> string list" where
  "split_acc acc [] = (if acc = [] then [] else [rev acc])"
| "split_acc acc (c # cs) =
     (if is_space c
      then (if acc = [] then split_acc [] cs else rev acc # split_acc [] cs)
      else split_acc (c # acc) cs)"

definition split :: "string \<Rightarrow> string list" where
  "split s = split_acc [] s"

definition strip :: "string \<Rightarrow> string" where
  "strip s = rev (dropWhile is_space (rev (dropWhile is_space s)))"

section \<open>Errors and child processes\<close>

text \<open>The Python exceptions that the modelled functions let escape.\<close>

datatype py_error = OSError | UncaughtSubprocessError | IndexError | KeyError

text \<open>
  What \<open>subprocess.run(command, capture_output=True, text=True, timeout=t)\<close> does: it
  returns a completed process with its return code and captured standard output, or
  raises \<open>TimeoutExpired\<close>, another \<open>SubprocessError\<close>, or an \<open>OSError\<close> when the
  program cannot be started.
\<close>

datatype proc_outcome =
    Completed int string
  | TimeoutExpired
  | SubprocessError
  | SpawnFailed

section \<open>The existence probe: \<open>package_exists\<close>\<close>

text \<open>
  \<open>package_exists\<close> returns \<open>True\<close>, \<open>False\<close> or, for flatpak, a string. The
  specification calls these Found, NotFound and FoundAs.
\<close>

datatype probe_value = PBool bool | PStr string

definition search_commands :: "(string \<times> string list) list" where
  "search_commands =
     [(''pacman'', [''pacman'', ''-Ss'']),
      (''paru'', [''paru'', ''-Ss'']),
      (''yay'', [''yay'', ''-Ss'']),
      (''apt'', [''apt'', ''search'']),
      (''dnf'', [''dnf'', ''search'']),
      (''zypper'', [''zypper'', ''search'']),
      (''snap'', [''snap'', ''find'']),
      (''flatpak'', [''flatpak'', ''search''])]"

definition search_command :: "string \<Rightarrow> string \<Rightarrow> string list" where
  \<comment> \<open>\<open>search_commands.get(pkg_manager, []) + [package]\<close>\<close>
  "search_command pkg_manager package =
     (case map_of search_commands pkg_manager of None \<Rightarrow> [] | Some c \<Rightarrow> c) @ [package]"

text \<open>
  The flatpak loop over \<open>result.stdout.splitlines()\<close>: at the first line whose lower-cased
  text contains the lower-cased name it returns \<open>line.split()[0]\<close>, which raises
  \<open>IndexError\<close> on a line without a token. \<open>None\<close> means the loop ran to its end.
\<close>

fun flatpak_scan :: "string \<Rightarrow> string list \<Rightarrow> (py_error + string) option" where
  "flatpak_scan package [] = None"
| "flatpak_scan package (line # lines) =
     (if sublist (lower package) (lower line)
      then (case split line of [] \<Rightarrow> Some (Inl IndexError) | tok # _ \<Rightarrow> Some (Inr tok))
      else flatpak_scan package lines)"

text \<open>
  The body of \<open>package_exists\<close>, without the \<open>lru_cache\<close> decorator. \<open>run\<close> is the
  child process: it maps the command to what \<open>subprocess.run\<close> does with it. The
  \<open>except\<close> clause catches \<open>TimeoutExpired\<close> and \<open>SubprocessError\<close> only.
\<close>

definition package_exists_body ::
  "(string list \<Rightarrow> proc_outcome) \<Rightarrow> string \<Rightarrow> string \<Rightarrow> py_error + probe_value" where
  "package_exists_body run package pkg_manager =
     (case run (search_command pkg_manager package) of
        TimeoutExpired \<Rightarrow> Inr (PBool False)
      | SubprocessError \<Rightarrow> Inr (PBool False)
      | SpawnFailed \<Rightarrow> Inl OSError
      | Completed returncode stdout \<Rightarrow>
          (let output = lower stdout in
           if pkg_manager = ''flatpak'' then
             (if \<not> sublist (lower package) output then
                (case flatpak_scan package (splitlines stdout) of
                   Some (Inl e) \<Rightarrow> Inl e
                 | Some (Inr flatpak_name) \<Rightarrow> Inr (PStr flatpak_name)
                 | None \<Rightarrow> Inr (PBool (sublist (lower package) output \<and> returncode = 0)))
              else Inr (PBool (sublist (lower package) output \<and> returncode = 0)))
           else Inr (PBool (sublist (lower package) output \<and> returncode = 0))))"

section \<open>The memoised probe: \<open>lru_cache(maxsize=128)\<close>\<close>

text \<open>
  The decorator keeps the returned values keyed by the argument pair, at most \<open>maxsize\<close>
  of them. The cache is a list with the most recently used entry first. A hit moves its
  entry to the front and starts no process. A miss runs the body; a returned value is
  stored at the front, after the least recently used entry has been dropped when the
  cache is full; a raised exception stores nothing. \<open>launched\<close> is the log of the
  commands handed to \<open>subprocess.run\<close>, oldest first. The environment \<open>env k\<close> is what
  the child process started after \<open>k\<close> earlier ones does.
\<close>

record probe_state =
  cache :: "((string \<times> string) \<times> probe_value) list"
  launched :: "string list list"

definition maxsize :: nat where
  "maxsize = 128"

definition initial_state :: probe_state where
  "initial_state = \<lparr>cache = [], launched = []\<rparr>"

definition package_exists ::
  "(nat \<Rightarrow> string list \<Rightarrow> proc_outcome) \<Rightarrow> string \<Rightarrow> string \<Rightarrow> probe_state
     \<Rightarrow> (py_error + probe_value) \<times> probe_state" where
  "package_exists env package pkg_manager s =
     (let key = (package, pkg_manager) in
      case map_of (cache s) key of
        Some v \<Rightarrow>
          (Inr v, s\<lparr>cache := (key, v) # filter (\<lambda>e. fst e \<noteq> key) (cache s)\<rparr>)
      | None \<Rightarrow>
          (let s' = s\<lparr>launched := launched s @ [search_command pkg_manager package]\<rparr> in
           case package_exists_body (env (length (launched s))) package pkg_manager of
             Inl e \<Rightarrow> (Inl e, s')
           | Inr v \<Rightarrow>
               (Inr v,
                s'\<lparr>cache := (key, v) #
                  (if length (cache s) \<ge> maxsize then butlast (cache s) else cache s)\<rparr>)))"

text \<open>A run of probes one after the other; the results are dropped, the state is kept.\<close>

fun probe_all ::
  "(nat \<Rightarrow> string list \<Rightarrow> proc_outcome) \<Rightarrow> (string \<times> string) list \<Rightarrow> probe_state
     \<Rightarrow> probe_state" where
  "probe_all env [] s = s"
| "probe_all env ((package, pkg_manager) # ks) s =
     probe_all env ks (snd (package_exists env package pkg_manager s))"

section \<open>Elevation: \<open>requires_sudo\<close> and the command table\<close>

definition sudo_required_commands :: "(string \<times> string list) list" where
  "sudo_required_commands =
     [(''pacman'', [''-S'', ''-R'', ''-Sy'', ''-Syu'', ''-Sc'']),
      (''paru'', []),
      (''yay'', []),
      (''apt'', [''install'', ''remove'', ''update'', ''dist-upgrade'', ''autoremove'']),
      (''dnf'', [''install'', ''remove'', ''update'', ''upgrade'', ''clean'']),
      (''zypper'', [''install'', ''remove'', ''refresh'', ''update'', ''clean'']),
      (''snap'', [''snap'', ''install'', ''remove'']),
      (''flatpak'', [''install'', ''uninstall''])]"

definition requires_sudo :: "string \<Rightarrow> string \<Rightarrow> bool" where
  \<comment> \<open>\<open>command in sudo_required_commands.get(pkg_manager, [])\<close>\<close>
  "requires_sudo command pkg_manager =
     (command \<in> set (case map_of sudo_required_commands pkg_manager of
                       None \<Rightarrow> [] | Some cs \<Rightarrow> cs))"

definition command_mappings :: "(string \<times> (string \<times> string list) list) list" where
  "command_mappings =
     [(''pacman'',
        [(''-S'', [''pacman'', ''-S'']), (''-R'', [''pacman'', ''-R'']),
         (''-Sy'', [''pacman'', ''-Sy'']), (''-Syu'', [''pacman'', ''-Syu'']),
         (''-Sc'', [''pacman'', ''-Sc'']), (''-Q'', [''pacman'', ''-Q'']),
         (''-Qs'', [''pacman'', ''-Qs'']), (''-Ss'', [''pacman'', ''-Ss'']),
         (''-Qi'', [''pacman'', ''-Qi'']), (''-Ql'', [''pacman'', ''-Ql''])]),
      (''paru'',
        [(''-S'', [''paru'', ''-S'']), (''-R'', [''paru'', ''-R'']),
         (''-Sy'', [''paru'', ''-Sy'']), (''-Syu'', [''paru'', ''-Syu'']),
         (''-Sc'', [''paru'', ''-Sc'']), (''-Q'', [''paru'', ''-Q'']),
         (''-Qs'', [''paru'', ''-Qs'']), (''-Ss'', [''paru'', ''-Ss'']),
         (''-Qi'', [''paru'', ''-Qi'']), (''-Ql'', [''paru'', ''-Ql''])]),
      (''yay'',
        [(''-S'', [''yay'', ''-S'']), (''-R'', [''yay'', ''-R'']),
         (''-Sy'', [''yay'', ''-Sy'']), (''-Syu'', [''yay'', ''-Syu'']),
         (''-Sc'', [''yay'', ''-Sc'']), (''-Q'', [''yay'', ''-Q'']),
         (''-Qs'', [''yay'', ''-Qs'']), (''-Ss'', [''yay'', ''-Ss'']),
         (''-Qi'', [''yay'', ''-Qi'']), (''-Ql'', [''yay'', ''-Ql''])]),
      (''apt'',
        [(''-S'', [''apt'', ''install'']), (''-R'', [''apt'', ''remove'']),
         (''-Sy'', [''apt'', ''update'']), (''-Syu'', [''apt'', ''dist-upgrade'']),
         (''-Sc'', [''apt'', ''autoremove'']), (''-Q'', [''dpkg'', ''-l'']),
         (''-Qs'', [''dpkg-query'', ''-l'']), (''-Ss'', [''apt'', ''search'']),
         (''-Qi'', [''apt'', ''show'']), (''-Ql'', [''dpkg'', ''-L''])]),
      (''dnf'',
        [(''-S'', [''dnf'', ''install'']), (''-R'', [''dnf'', ''remove'']),
         (''-Sy'', [''dnf'', ''update'']), (''-Syu'', [''dnf'', ''upgrade'']),
         (''-Sc'', [''dnf'', ''clean'', ''all'']), (''-Q'', [''dnf'', ''list'', ''installed'']),
         (''-Qs'', [''dnf'', ''list'', ''installed'']), (''-Ss'', [''dnf'', ''search'']),
         (''-Qi'', [''dnf'', ''info'']), (''-Ql'', [''rpm'', ''-ql''])]),
      (''zypper'',
        [(''-S'', [''zypper'', ''install'']), (''-R'', [''zypper'', ''remove'']),
         (''-Sy'', [''zypper'', ''refresh'']), (''-Syu'', [''zypper'', ''update'']),
         (''-Sc'', [''zypper'', ''clean'']), (''-Q'', [''zypper'', ''se'', ''-i'']),
         (''-Qs'', [''zypper'', ''se'', ''-i'']), (''-Ss'', [''zypper'', ''search'']),
         (''-Qi'', [''zypper'', ''info'']), (''-Ql'', [''rpm'', ''-ql''])]),
      (''snap'',
        [(''-S'', [''snap'', ''install'']), (''-R'', [''snap'', ''remove'']),
         (''-Sy'', [''snap'', ''refresh'']), (''-Syu'', [''snap'', ''refresh'']),
         (''-Sc'', [''snap'', ''remove'', ''--purge'']), (''-Q'', [''snap'', ''list'']),
         (''-Qs'', [''snap'', ''list'']), (''-Ss'', [''snap'', ''find'']),
         (''-Qi'', [''snap'', ''info''])]),
      (''flatpak'',
        [(''-S'', [''flatpak'', ''install'']), (''-R'', [''flatpak'', ''uninstall'']),
         (''-Sy'', [''flatpak'', ''update'']), (''-Syu'', [''flatpak'', ''update'']),
         (''-Sc'', [''flatpak'', ''uninstall'', ''--unused'']), (''-Q'', [''flatpak'', ''list'']),
         (''-Qs'', [''flatpak'', ''list'']), (''-Ss'', [''flatpak'', ''search'']),
         (''-Qi'', [''flatpak'', ''info''])])]"

definition mapped_command :: "string \<Rightarrow> string \<Rightarrow> py_error + string list" where
  \<comment> \<open>\<open>command_mappings[manager][verb]\<close>; a missing key raises \<open>KeyError\<close>.\<close>
  "mapped_command manager verb =
     (case map_of command_mappings manager of
        None \<Rightarrow> Inl KeyError
      | Some verbs \<Rightarrow>
          (case map_of verbs verb of None \<Rightarrow> Inl KeyError | Some c \<Rightarrow> Inr c))"

text \<open>
  The command vector handed to \<open>run_command\<close>, as \<open>handle_install\<close> builds it with
  \<open>"-S"\<close>, the removal paths with \<open>"-R"\<close> and \<open>main\<close> with the verb it was given:
  \<open>cmd = command_mappings[chosen_manager][verb] + args\<close>, then
  \<open>if requires_sudo(verb, chosen_manager): cmd = ["sudo"] + cmd\<close>.
\<close>

definition build_command :: "string \<Rightarrow> string \<Rightarrow> string list \<Rightarrow> py_error + string list" where
  "build_command verb chosen_manager args =
     (case mapped_command chosen_manager verb of
        Inl e \<Rightarrow> Inl e
      | Inr base \<Rightarrow>
          (let cmd = base @ args in
           Inr (if requires_sudo verb chosen_manager then [''sudo''] @ cmd else cmd)))"

definition translate_verb :: "string \<Rightarrow> string" where
  \<comment> \<open>\<open>main\<close>, when the script runs under the name of a simulated manager.\<close>
  "translate_verb command =
     (if command = ''install'' then ''-S''
      else if command = ''remove'' then ''-R''
      else if command = ''update'' then ''-Sy''
      else if command = ''upgrade'' then ''-Syu''
      else if command = ''clean'' then ''-Sc''
      else if command = ''list'' then ''-Q''
      else if command = ''search'' then ''-Ss''
      else if command = ''info'' then ''-Qi''
      else command)"

text \<open>
  The verb of the backend's own command line that an abstract verb stands for: the word
  after the program name in the mapped command (\<open>install\<close> for \<open>-S\<close> under apt, \<open>-S\<close>
  itself under pacman). This is the vocabulary in which \<open>sudo_required_commands\<close> lists
  the privileged verbs.
\<close>

definition native_verb :: "string \<Rightarrow> string \<Rightarrow> string option" where
  "native_verb manager verb =
     (case mapped_command manager verb of
        Inr (prog # word # rest) \<Rightarrow> Some word
      | _ \<Rightarrow> None)"

section \<open>Cell truncation: \<open>truncate_text\<close>\<close>

definition truncate_text :: "string \<Rightarrow> nat \<Rightarrow> string" where
  "truncate_text text max_length =
     (if length text \<le> max_length then text else take 19 text @ ''...'')"

section \<open>The comparison engine: \<open>compare_packages\<close>\<close>

text \<open>
  A cell is the \<open>info\<close> dictionary of one (package, manager) pair: an association list in
  insertion order, written with \<open>AList.update\<close> as \<open>info[key] = value\<close> writes a
  dictionary.
\<close>

type_synonym info = "(string \<times> string) list"

definition dep_commands :: "(string \<times> string list) list" where
  "dep_commands =
     [(''pacman'', [''pacman'', ''-Si'']),
      (''paru'', [''paru'', ''-Si'']),
      (''yay'', [''yay'', ''-Si'']),
      (''apt'', [''apt'', ''show'']),
      (''dnf'', [''dnf'', ''info'']),
      (''zypper'', [''zypper'', ''info'']),
      (''snap'', [''snap'', ''info'']),
      (''flatpak'', [''flatpak'', ''info''])]"

definition has_colon :: "string \<Rightarrow> bool" where
  "has_colon line = (CHR '':'' \<in> set line)"

definition after_colon :: "string \<Rightarrow> string" where
  \<comment> \<open>\<open>line.split(":", 1)[-1]\<close>: what follows the first colon, the whole line without one.\<close>
  "after_colon line =
     (if has_colon line then tl (dropWhile (\<lambda>c. c \<noteq> CHR '':'') line) else line)"

fun join_words :: "string list \<Rightarrow> string" where
  \<comment> \<open>\<open>" ".join(words)\<close>\<close>
  "join_words [] = []"
| "join_words [w] = w"
| "join_words (w # v # ws) = w @ '' '' @ join_words (v # ws)"

definition last_word :: "string \<Rightarrow> py_error + string" where
  \<comment> \<open>\<open>line.split()[-1]\<close>\<close>
  "last_word line = (case split line of [] \<Rightarrow> Inl IndexError | ws \<Rightarrow> Inr (last ws))"

definition first_word :: "string \<Rightarrow> py_error + string" where
  \<comment> \<open>\<open>text.split()[0]\<close>\<close>
  "first_word text = (case split text of [] \<Rightarrow> Inl IndexError | w # _ \<Rightarrow> Inr w)"

definition set_field :: "string \<Rightarrow> py_error + string \<Rightarrow> info \<Rightarrow> py_error + info" where
  \<comment> \<open>\<open>info[key] = value\<close>, where computing the value may raise.\<close>
  "set_field key value info =
     (case value of Inl e \<Rightarrow> Inl e | Inr v \<Rightarrow> Inr (AList.update key v info))"

text \<open>One turn of the loop over \<open>output.splitlines()\<close> in \<open>fetch_package_info\<close>.\<close>

definition parse_line :: "string \<Rightarrow> string \<Rightarrow> info \<Rightarrow> py_error + info" where
  "parse_line manager raw info =
     (let line = strip raw in
      if line = [] then Inr info
      else if manager = ''snap'' then
        (if prefix ''name:'' line then
           set_field ''Name'' (Inr (strip (after_colon line))) info
         else if prefix ''version:'' line then
           set_field ''Version'' (Inr (strip (after_colon line))) info
         else if prefix ''installed:'' line \<or> prefix ''size:'' line then
           set_field ''Size'' (first_word (strip (after_colon line))) info
         else if prefix ''summary:'' line \<or> prefix ''description:'' line then
           set_field ''Description'' (Inr (strip (after_colon line))) info
         else if prefix ''depends:'' line then
           set_field ''Dependencies'' (Inr (strip (after_colon line))) info
         else Inr info)
      else
        (if sublist ''Version'' line \<or> sublist ''version'' line then
           set_field ''Version''
             (if has_colon line then Inr (strip (after_colon line)) else last_word line) info
         else if sublist ''Size'' line \<or> sublist ''Installed-Size'' line then
           set_field ''Size''
             (if has_colon line then Inr (strip (after_colon line)) else last_word line) info
         else if sublist ''Description'' line then
           set_field ''Description''
             (if has_colon line then Inr (strip (after_colon line))
              else Inr (join_words (tl (split line)))) info
         else if sublist ''Depends'' line then
           set_field ''Dependencies''
             (if has_colon line then Inr (strip (after_colon line))
              else Inr (join_words (tl (split line)))) info
         else Inr info))"

fun parse_lines :: "string \<Rightarrow> string list \<Rightarrow> info \<Rightarrow> py_error + info" where
  "parse_lines manager [] info = Inr info"
| "parse_lines manager (raw # raws) info =
     (case parse_line manager raw info of
        Inl e \<Rightarrow> Inl e
      | Inr info' \<Rightarrow> parse_lines manager raws info')"

definition truthy :: "probe_value \<Rightarrow> bool" where
  \<comment> \<open>Python's truth value of what \<open>package_exists\<close> returned.\<close>
  "truthy v = (case v of PBool b \<Rightarrow> b | PStr s \<Rightarrow> s \<noteq> [])"

text \<open>
  \<open>fetch_package_info(manager, package)\<close>. \<open>probe package manager\<close> is what the call of
  \<open>package_exists\<close> gives this task and \<open>run\<close> what \<open>subprocess.run\<close> does with the
  detail command. The result \<open>Inr cell\<close> is the value the task stores at
  \<open>comparison_data[package][manager]\<close>; with \<open>Inl e\<close> the task ends in an exception and
  stores nothing. Only \<open>TimeoutExpired\<close> is caught here.
\<close>

definition fetch_package_info ::
  "(string \<Rightarrow> string \<Rightarrow> py_error + probe_value) \<Rightarrow> (string list \<Rightarrow> proc_outcome)
     \<Rightarrow> string \<Rightarrow> string \<Rightarrow> py_error + info" where
  "fetch_package_info probe run manager package =
     (case probe package manager of
        Inl e \<Rightarrow> Inl e
      | Inr exists \<Rightarrow>
          if \<not> truthy exists then Inr [(''Error'', ''Not found'')]
          else
            (let pkg_name =
                   (case exists of
                      PStr s \<Rightarrow> if manager = ''flatpak'' then s else package
                    | PBool _ \<Rightarrow> package)
             in case map_of dep_commands manager of
                  None \<Rightarrow> Inl KeyError
                | Some base \<Rightarrow>
                    (case run (base @ [pkg_name]) of
                       TimeoutExpired \<Rightarrow> Inr [(''Error'', ''Timeout'')]
                     | SubprocessError \<Rightarrow> Inl UncaughtSubprocessError
                     | SpawnFailed \<Rightarrow> Inl OSError
                     | Completed returncode output \<Rightarrow>
                         (case parse_lines manager (splitlines output) [] of
                            Inl e \<Rightarrow> Inl e
                          | Inr info \<Rightarrow>
                              Inr (if info = [] then [(''Error'', ''Data unavailable'')]
                                   else info)))))"

text \<open>
  \<open>comparison_data\<close> maps each package to its rows, a dictionary from manager to cell in
  insertion order. The pool runs one task per pair, submitted package by package and,
  within a package, manager by manager. A task writes its cell when it finishes, so the
  writes happen in the order in which the tasks complete: \<open>order\<close>, a rearrangement of
  the submitted tasks. The exception of a task stays in its future, which nobody reads.
\<close>

type_synonym comparison_data = "string \<rightharpoonup> (string \<times> info) list"

definition submitted :: "string list \<Rightarrow> string list \<Rightarrow> (string \<times> string) list" where
  \<comment> \<open>The tasks as (manager, package), in the order of \<open>executor.submit\<close>.\<close>
  "submitted packages available_managers =
     concat (map (\<lambda>package. map (\<lambda>manager. (manager, package)) available_managers) packages)"

definition initial_data :: "string list \<Rightarrow> comparison_data" where
  \<comment> \<open>\<open>{pkg: {} for pkg in packages}\<close>\<close>
  "initial_data packages = (\<lambda>pkg. if pkg \<in> set packages then Some [] else None)"

definition complete_task ::
  "(string \<Rightarrow> string \<Rightarrow> py_error + probe_value) \<Rightarrow> (string list \<Rightarrow> proc_outcome)
     \<Rightarrow> string \<times> string \<Rightarrow> comparison_data \<Rightarrow> comparison_data" where
  "complete_task probe run task cd =
     (case task of (manager, package) \<Rightarrow>
        (case fetch_package_info probe run manager package of
           Inl e \<Rightarrow> cd
         | Inr cell \<Rightarrow>
             (case cd package of
                None \<Rightarrow> cd
              | Some rows \<Rightarrow> cd(package \<mapsto> AList.update manager cell rows))))"

definition info_get :: "info \<Rightarrow> string \<Rightarrow> string \<Rightarrow> string" where
  \<comment> \<open>\<open>info.get(key, default)\<close>\<close>
  "info_get info key dflt = (case map_of info key of None \<Rightarrow> dflt | Some v \<Rightarrow> v)"

text \<open>
  A printed row: the manager and the four truncated cells. The padding to the column
  width, the borders and the colours of the printed line are left out.
\<close>

definition table_row :: "string \<times> info \<Rightarrow> string \<times> string \<times> string \<times> string \<times> string" where
  "table_row r =
     (case r of (manager, info) \<Rightarrow>
        (manager,
         truncate_text (info_get info ''Version'' ''N/A'') 22,
         truncate_text (info_get info ''Size'' ''N/A'') 22,
         truncate_text (info_get info ''Description'' ''No description'') 22,
         truncate_text (info_get info ''Dependencies'' ''None'') 22))"

definition collected ::
  "(string \<Rightarrow> string \<Rightarrow> py_error + probe_value) \<Rightarrow> (string list \<Rightarrow> proc_outcome)
     \<Rightarrow> string list \<Rightarrow> (string \<times> string) list \<Rightarrow> comparison_data" where
  \<comment> \<open>\<open>comparison_data\<close> once the pool has shut down.\<close>
  "collected probe run packages order =
     fold (complete_task probe run) order (initial_data packages)"

definition rows_of :: "comparison_data \<Rightarrow> string \<Rightarrow> (string \<times> info) list" where
  \<comment> \<open>\<open>comparison_data[package].items()\<close>\<close>
  "rows_of cd package = (case cd package of None \<Rightarrow> [] | Some rows \<Rightarrow> rows)"

definition compare_packages ::
  "(string \<Rightarrow> string \<Rightarrow> py_error + probe_value) \<Rightarrow> (string list \<Rightarrow> proc_outcome)
     \<Rightarrow> string list \<Rightarrow> (string \<times> string) list
     \<Rightarrow> (string \<times> (string \<times> string \<times> string \<times> string \<times> string) list) list" where
  \<comment> \<open>The tables in printing order: one per entry of \<open>packages\<close>, each with its rows.\<close>
  "compare_packages probe run packages order =
     (let cd = collected probe run packages order
      in map (\<lambda>package. (package, map table_row (rows_of cd package))) packages)"

section \<open>The resolver: \<open>select_repository\<close>\<close>

text \<open>
  The three collections that the loops of \<open>select_repository\<close> fill: the keys of
  \<open>valid_options\<close> and the dictionary \<open>flatpak_mismatches\<close> in insertion order, and the
  list \<open>available_packages\<close>.
\<close>

record resolve_state =
  valid_options :: "string list"
  flatpak_mismatches :: "(string \<times> string) list"
  available_packages :: "string list"

definition is_str :: "probe_value \<Rightarrow> bool" where
  \<comment> \<open>\<open>isinstance(result, str)\<close>\<close>
  "is_str v = (case v of PStr _ \<Rightarrow> True | PBool _ \<Rightarrow> False)"

definition record_result ::
  "bool \<Rightarrow> string \<Rightarrow> string \<Rightarrow> probe_value \<Rightarrow> resolve_state \<Rightarrow> resolve_state" where
  \<comment> \<open>The \<open>if\<close>/\<open>elif\<close> on the result of one probe.\<close>
  "record_result install_mode manager package result st =
     (if manager = ''flatpak'' \<and> is_str result \<and> result \<noteq> PStr package then
        st\<lparr>flatpak_mismatches :=
             AList.update package (case result of PStr s \<Rightarrow> s | PBool _ \<Rightarrow> [])
               (flatpak_mismatches st)\<rparr>
      else if result = PBool True then
        st\<lparr>valid_options :=
             (if manager \<in> set (valid_options st) then valid_options st
              else valid_options st @ [manager]),
           available_packages :=
             (if install_mode \<and> package \<notin> set (available_packages st)
              then available_packages st @ [package] else available_packages st)\<rparr>
      else st)"

fun check_packages ::
  "(string \<Rightarrow> string \<Rightarrow> py_error + probe_value) \<Rightarrow> bool \<Rightarrow> string \<Rightarrow> string list
     \<Rightarrow> resolve_state \<Rightarrow> py_error + resolve_state" where
  "check_packages probe install_mode manager [] st = Inr st"
| "check_packages probe install_mode manager (package # packages) st =
     (case probe package manager of
        Inl e \<Rightarrow> Inl e
      | Inr result \<Rightarrow>
          check_packages probe install_mode manager packages
            (record_result install_mode manager package result st))"

fun check_repositories ::
  "(string \<Rightarrow> string \<Rightarrow> py_error + probe_value) \<Rightarrow> bool \<Rightarrow> string list \<Rightarrow> string list
     \<Rightarrow> resolve_state \<Rightarrow> py_error + resolve_state" where
  "check_repositories probe install_mode [] packages st = Inr st"
| "check_repositories probe install_mode (manager # managers) packages st =
     (case check_packages probe install_mode manager packages st of
        Inl e \<Rightarrow> Inl e
      | Inr st' \<Rightarrow> check_repositories probe install_mode managers packages st')"

text \<open>
  What \<open>select_repository\<close> has written to standard output and decided when it reaches
  the prompt (or returns \<open>(None, [])\<close> without one): the lines, without their colour
  codes, and the numbered \<open>options\<close>, \<open>None\<close> when no repository was found.
\<close>

datatype out_line =
    MismatchHeader
  | MismatchLine string string
  | NoRepositories "string list"
  | SelectHeader "string list"
  | OptionLine nat string
  | ExitLine nat

record resolution =
  printed :: "out_line list"
  options :: "string list option"
  mismatches :: "(string \<times> string) list"
  installable :: "string list"

definition select_repository ::
  "(string \<Rightarrow> string \<Rightarrow> py_error + probe_value) \<Rightarrow> string list \<Rightarrow> string list \<Rightarrow> bool
     \<Rightarrow> py_error + resolution" where
  "select_repository probe packages repo_order install_mode =
     (case check_repositories probe install_mode repo_order packages
             \<lparr>valid_options = [], flatpak_mismatches = [], available_packages = []\<rparr> of
        Inl e \<Rightarrow> Inl e
      | Inr st \<Rightarrow>
          (let note =
                 (if flatpak_mismatches st \<noteq> [] \<and> install_mode
                  then MismatchHeader #
                       map (\<lambda>(pkg, flatpak_name). MismatchLine pkg flatpak_name)
                         (flatpak_mismatches st)
                  else [])
           in if valid_options st = [] then
                Inr \<lparr>printed = note @ [NoRepositories packages], options = None,
                     mismatches = flatpak_mismatches st, installable = available_packages st\<rparr>
              else
                (let opts = filter (\<lambda>mgr. mgr \<in> set (valid_options st)) repo_order
                 in Inr \<lparr>printed = note @ [SelectHeader packages] @
                            map (\<lambda>(i, opt). OptionLine (Suc i) opt) (enumerate 0 opts) @
                            [ExitLine (length opts + 1)],
                          options = Some opts,
                          mismatches = flatpak_mismatches st,
                          installable = available_packages st\<rparr>)))"

section \<open>Example environments\<close>

text \<open>Child processes used to run the model on concrete inputs.\<close>

definition always_timeout :: "nat \<Rightarrow> string list \<Rightarrow> proc_outcome" where
  \<comment> \<open>Every child process exceeds its time budget.\<close>
  "always_timeout k command = TimeoutExpired"

definition always_empty :: "nat \<Rightarrow> string list \<Rightarrow> proc_outcome" where
  \<comment> \<open>Every child process exits with status 0 and prints nothing.\<close>
  "always_empty k command = Completed 0 []"

definition always_found :: "nat \<Rightarrow> string list \<Rightarrow> proc_outcome" where
  \<comment> \<open>Every child process exits with status 0 and prints the words of its command.\<close>
  "always_found k command = Completed 0 (concat command)"

definition firefox_search :: "string list \<Rightarrow> proc_outcome" where
  \<comment> \<open>The flatpak search of the namespace-divergence scenario.\<close>
  "firefox_search command = Completed 0 ''org.mozilla.firefox  Firefox  Web Browser''"

definition no_matches :: "string list \<Rightarrow> proc_outcome" where
  "no_matches command = Completed 0 ''No matches found''"

definition git_search :: "string list \<Rightarrow> proc_outcome" where
  "git_search command = Completed 0 ''git - fast version control''"

definition filler_keys :: "(string \<times> string) list" where
  \<comment> \<open>128 distinct two-letter package names, each paired with apt.\<close>
  "filler_keys =
     take 128
       (concat (map (\<lambda>a. map (\<lambda>b. ([a, b], ''apt'')) ''abcdefghijkl'') ''abcdefghijkl''))"



definition order_probe :: "string \<Rightarrow> string \<Rightarrow> py_error + probe_value" where
  "order_probe package manager =
     Inr (PBool ((package = ''git'' \<and> manager = ''snap'') \<or> manager = ''apt''))"

definition order_resolution :: resolution where
  "order_resolution =
     \<lparr>printed = [SelectHeader [''git'', ''vim''], OptionLine 1 ''snap'', OptionLine 2 ''apt'',
                 ExitLine 3],
      options = Some [''snap'', ''apt''],
      mismatches = [],
      installable = []\<rparr>"

text \<open>
  The comparison of \<open>big-pkg\<close>: every manager but snap has the package, apt and dnf
  answer the detail query.
\<close>

definition bigpkg_probe :: "string \<Rightarrow> string \<Rightarrow> py_error + probe_value" where
  "bigpkg_probe package manager = Inr (PBool (manager \<noteq> ''snap''))"

definition bigpkg_run :: "string list \<Rightarrow> proc_outcome" where
  "bigpkg_run command =
     (if command = [''apt'', ''show'', ''big-pkg'']
      then Completed 0 ''Package: big-pkg\<newline>Version: 1.0\<newline>Installed-Size: 12 MB''
      else if command = [''dnf'', ''info'', ''big-pkg'']
      then Completed 0 ''Version      : 2.0''
      else Completed 1 [])"

definition dnf_missing_run :: "string list \<Rightarrow> proc_outcome" where
  \<comment> \<open>As \<open>bigpkg_run\<close>, but the dnf program cannot be started.\<close>
  "dnf_missing_run command =
     (if take 1 command = [''dnf''] then SpawnFailed else bigpkg_run command)"

section \<open>Notions used in the statements\<close>

text \<open>
  The coverage of a manager as \<open>select_repository\<close> records it: the requested packages
  for which the probe returned \<open>True\<close>. One such hit puts the manager into
  \<open>valid_options\<close>.
\<close>

definition coverage ::
  "(string \<Rightarrow> string \<Rightarrow> py_error + probe_value) \<Rightarrow> string list \<Rightarrow> string \<Rightarrow> string list" where
  "coverage probe packages manager =
     filter (\<lambda>package. probe package manager = Inr (PBool True)) packages"


text \<open>The elements of a list in the order of their first occurrence.\<close>

definition first_occurrences :: "'a list \<Rightarrow> 'a list" where
  "first_occurrences xs = rev (remdups (rev xs))"

text \<open>
  The cells written for one package, in the order of the writes: one for each completed
  task of that package that did not end in an exception.
\<close>

definition writes ::
  "(string \<Rightarrow> string \<Rightarrow> py_error + probe_value) \<Rightarrow> (string list \<Rightarrow> proc_outcome)
     \<Rightarrow> string \<Rightarrow> (string \<times> string) list \<Rightarrow> (string \<times> info) list" where
  "writes probe run package order =
     List.map_filter
       (\<lambda>(manager, pkg).
          if pkg = package
          then (case fetch_package_info probe run manager pkg of
                  Inl e \<Rightarrow> None
                | Inr cell \<Rightarrow> Some (manager, cell))
          else None)
       order"

section \<open>Invariant of the cache\<close>

text \<open>
  \<open>retained k v K c\<close>: the cache \<open>c\<close> has no key twice and holds \<open>v\<close> for \<open>k\<close>, and every
  entry in front of it (more recently used) has its key in \<open>K\<close>.
\<close>

definition retained ::
  "string \<times> string \<Rightarrow> probe_value \<Rightarrow> (string \<times> string) set
     \<Rightarrow> ((string \<times> string) \<times> probe_value) list \<Rightarrow> bool" where
  "retained k v K c \<longleftrightarrow>
     distinct (map fst c) \<and> (\<exists>pre post. c = pre @ (k, v) # post \<and> fst ` set pre \<subseteq> K)"

section \<open>Properties of the strings\<close>

lemma splitlines_acc_sublist:
  "l \<in> set (splitlines_acc acc s) \<Longrightarrow> sublist l (rev acc @ s)"
proof (induction acc s rule: splitlines_acc.induct)
  case (1 acc)
  then show ?case by (simp split: if_splits)
next
  case (2 acc c)
  then show ?case
    by (auto split: if_splits)
next
  case (3 acc c d cs)
  show ?case
  proof (cases "c = CHR 0x0D \<and> d = CHR 0x0A")
    case True
    with 3 have "l = rev acc \<or> l \<in> set (splitlines_acc [] cs)" by simp
    then show ?thesis
    proof
      assume "l = rev acc" then show ?thesis by simp
    next
      assume "l \<in> set (splitlines_acc [] cs)"
      with 3(1) True have "sublist l cs" by simp
      then obtain ps ss where "cs = ps @ l @ ss" by (auto simp: sublist_def)
      then have "rev acc @ c # d # cs = (rev acc @ [c, d] @ ps) @ l @ ss" by simp
      then show ?thesis unfolding sublist_def by blast
    qed
  next
    case nocrlf: False
    show ?thesis
    proof (cases "is_line_boundary c")
      case True
      with 3 nocrlf have "l = rev acc \<or> l \<in> set (splitlines_acc [] (d # cs))" by auto
      then show ?thesis
      proof
        assume "l = rev acc" then show ?thesis by simp
      next
        assume "l \<in> set (splitlines_acc [] (d # cs))"
        with 3(2) nocrlf True have "sublist l (d # cs)" by simp
        then obtain ps ss where "d # cs = ps @ l @ ss" by (auto simp: sublist_def)
        then have "rev acc @ c # d # cs = (rev acc @ [c] @ ps) @ l @ ss" by simp
        then show ?thesis unfolding sublist_def by blast
      qed
    next
      case False
      with 3 nocrlf show ?thesis by auto
    qed
  qed
qed

lemma splitlines_sublist: "l \<in> set (splitlines s) \<Longrightarrow> sublist l s"
  using splitlines_acc_sublist [of l "[]" s] by (simp add: splitlines_def)

text \<open>What a line contains after lower-casing, the whole output contains too.\<close>

lemma lower_line_sublist:
  assumes "l \<in> set (splitlines s)" and "sublist x (lower l)"
  shows "sublist x (lower s)"
proof -
  have "sublist (lower l) (lower s)"
    unfolding lower_def using assms(1) by (intro map_mono_sublist splitlines_sublist)
  with assms(2) show ?thesis by (rule sublist_order.order_trans)
qed

section \<open>Properties of the probe body\<close>

lemma flatpak_scan_None:
  "(\<And>l. l \<in> set ls \<Longrightarrow> \<not> sublist (lower p) (lower l)) \<Longrightarrow> flatpak_scan p ls = None"
  by (induction ls) auto

text \<open>
  The flatpak loop is entered only when the whole output lacks the name, and then no
  line has it: the loop never returns.
\<close>

lemma flatpak_scan_unreachable:
  "\<not> sublist (lower p) (lower s) \<Longrightarrow> flatpak_scan p (splitlines s) = None"
  by (rule flatpak_scan_None) (blast dest: lower_line_sublist)

lemma package_exists_body_Completed:
  assumes "run (search_command pkg_manager package) = Completed returncode stdout"
  shows "package_exists_body run package pkg_manager =
           Inr (PBool (sublist (lower package) (lower stdout) \<and> returncode = 0))"
  using assms by (auto simp: package_exists_body_def Let_def flatpak_scan_unreachable)

lemma package_exists_body_failure:
  "run (search_command m p) = TimeoutExpired \<or> run (search_command m p) = SubprocessError \<Longrightarrow>
     package_exists_body run p m = Inr (PBool False)"
  by (auto simp: package_exists_body_def)

lemma package_exists_body_not_str:
  "package_exists_body run package pkg_manager \<noteq> Inr (PStr name)"
proof (cases "run (search_command pkg_manager package)")
  case (Completed rc out)
  then show ?thesis by (simp add: package_exists_body_Completed)
qed (simp_all add: package_exists_body_def)

text \<open>
  C2. In the namespace-divergence scenario (flatpak, name \<open>firefox\<close>, output line
  \<open>org.mozilla.firefox  Firefox  Web Browser\<close>) the probe returns \<open>True\<close> (Found), not the
  string \<open>org.mozilla.firefox\<close>; and for no child process, name and backend does the
  probe return a string (FoundAs) at all.
\<close>

theorem package_exists_never_FoundAs:
  "package_exists_body firefox_search ''firefox'' ''flatpak'' = Inr (PBool True) \<and>
   (\<forall>run package pkg_manager name.
      package_exists_body run package pkg_manager \<noteq> Inr (PStr name))"
proof
  show "package_exists_body firefox_search ''firefox'' ''flatpak'' = Inr (PBool True)"
    by code_simp
  show "\<forall>run package pkg_manager name.
      package_exists_body run package pkg_manager \<noteq> Inr (PStr name)"
    by (simp add: package_exists_body_not_str)
qed

text \<open>
  C6. For every package name and backend the probe body returns \<open>True\<close> (Found) exactly
  when the child process completes with return code 0 and the lower-cased name is a
  substring of the lower-cased standard output; a return code 0 with the name absent
  from the output gives \<open>False\<close> (NotFound).
\<close>

theorem package_exists_found_iff:
  "(package_exists_body run package pkg_manager = Inr (PBool True) \<longleftrightarrow>
      (\<exists>stdout. run (search_command pkg_manager package) = Completed 0 stdout \<and>
         sublist (lower package) (lower stdout))) \<and>
   (run (search_command pkg_manager package) = Completed 0 out \<and>
      \<not> sublist (lower package) (lower out) \<longrightarrow>
      package_exists_body run package pkg_manager = Inr (PBool False))"
proof (cases "run (search_command pkg_manager package)")
  case (Completed rc so)
  then show ?thesis by (auto simp: package_exists_body_Completed)
qed (simp_all add: package_exists_body_def)

theorem package_exists_found_iff_witness:
  "package_exists_body no_matches ''firefox'' ''flatpak'' = Inr (PBool False) \<and>
   package_exists_body git_search ''git'' ''apt'' = Inr (PBool True)"
proof -
  have a: "\<not> sublist (lower ''firefox'') (lower ''No matches found'')" by code_simp
  have b: "sublist (lower ''git'') (lower ''git - fast version control'')" by code_simp
  show ?thesis
    using package_exists_found_iff
            [of no_matches "''firefox''" "''flatpak''" "''No matches found''"]
      package_exists_found_iff [of git_search "''git''" "''apt''"] a b
    by (auto simp: no_matches_def git_search_def)
qed

section \<open>Properties of the memoised probe\<close>

lemma package_exists_hit:
  "map_of (cache s) (p, m) = Some v \<Longrightarrow>
     package_exists env p m s =
       (Inr v, s\<lparr>cache := ((p, m), v) # filter (\<lambda>e. fst e \<noteq> (p, m)) (cache s)\<rparr>)"
  by (simp add: package_exists_def Let_def)

lemma package_exists_miss:
  "map_of (cache s) (p, m) = None \<Longrightarrow>
     package_exists env p m s =
       (case package_exists_body (env (length (launched s))) p m of
          Inl e \<Rightarrow> (Inl e, s\<lparr>launched := launched s @ [search_command m p]\<rparr>)
        | Inr v \<Rightarrow>
            (Inr v, s\<lparr>launched := launched s @ [search_command m p],
                       cache := ((p, m), v) #
                         (if length (cache s) \<ge> maxsize then butlast (cache s) else cache s)\<rparr>))"
  by (simp add: package_exists_def Let_def split: sum.splits)

text \<open>
  C1, as the code has it. When the child process of a probe that misses the cache times
  out or raises \<open>SubprocessError\<close>, the probe returns \<open>False\<close>, the value it returns for
  a package that is not found, and stores it in the cache: probing the same pair again
  returns \<open>False\<close> and starts no process.
\<close>

theorem package_exists_failure_memoised:
  assumes "map_of (cache s) (package, pkg_manager) = None"
    and "env (length (launched s)) (search_command pkg_manager package) = TimeoutExpired \<or>
         env (length (launched s)) (search_command pkg_manager package) = SubprocessError"
  shows "(case package_exists env package pkg_manager s of
            (r1, s1) \<Rightarrow>
              r1 = Inr (PBool False) \<and>
              launched s1 = launched s @ [search_command pkg_manager package] \<and>
              map_of (cache s1) (package, pkg_manager) = Some (PBool False) \<and>
              (case package_exists env package pkg_manager s1 of
                 (r2, s2) \<Rightarrow> r2 = Inr (PBool False) \<and> launched s2 = launched s1))"
proof -
  have b: "package_exists_body (env (length (launched s))) package pkg_manager = Inr (PBool False)"
    using assms(2) by (rule package_exists_body_failure)
  show ?thesis
    by (simp add: package_exists_miss [OF assms(1)] b package_exists_hit)
qed

theorem package_exists_failure_memoised_witness:
  "(case package_exists always_timeout ''git'' ''apt'' initial_state of
      (r1, s1) \<Rightarrow>
        r1 = Inr (PBool False) \<and>
        launched s1 = launched initial_state @ [search_command ''apt'' ''git''] \<and>
        map_of (cache s1) (''git'', ''apt'') = Some (PBool False) \<and>
        (case package_exists always_timeout ''git'' ''apt'' s1 of
           (r2, s2) \<Rightarrow> r2 = Inr (PBool False) \<and> launched s2 = launched s1))"
  using package_exists_failure_memoised [of initial_state "''git''" "''apt''" always_timeout]
  by (simp add: initial_state_def always_timeout_def)

text \<open>
  C1 as stated fails: with a child process that times out, the probe of (git, apt)
  returns the same value as with a child process that exits with status 0 and prints
  nothing, the value is in the cache afterwards, and a second probe of the pair starts
  no second process.
\<close>

theorem package_exists_timeout_counterexample:
  "fst (package_exists always_timeout ''git'' ''apt'' initial_state) = Inr (PBool False) \<and>
   fst (package_exists always_empty ''git'' ''apt'' initial_state) = Inr (PBool False) \<and>
   cache (snd (package_exists always_timeout ''git'' ''apt'' initial_state)) =
     [((''git'', ''apt''), PBool False)] \<and>
   launched (probe_all always_timeout [(''git'', ''apt''), (''git'', ''apt'')] initial_state) =
     [[''apt'', ''search'', ''git'']]"
  by code_simp

lemma package_exists_distinct:
  assumes "distinct (map fst (cache s))"
  shows "distinct (map fst (cache (snd (package_exists env p m s))))"
proof (cases "map_of (cache s) (p, m)")
  case None
  then have notin: "(p, m) \<notin> fst ` set (cache s)" by (simp add: map_of_eq_None_iff)
  have "distinct (map fst (butlast (cache s)))"
    using assms by (simp add: map_butlast distinct_butlast)
  moreover have "(p, m) \<notin> fst ` set (butlast (cache s))"
    using notin by (auto dest: in_set_butlastD)
  ultimately have "distinct (map fst (((p, m), w) #
      (if length (cache s) \<ge> maxsize then butlast (cache s) else cache s)))" for w
    using assms notin by simp
  then show ?thesis
    using None assms by (cases "package_exists_body (env (length (launched s))) p m")
      (simp_all add: package_exists_miss)
next
  case (Some v)
  have "distinct (map fst (filter (\<lambda>e. fst e \<noteq> (p, m)) (cache s)))"
    using assms by (simp add: distinct_map_filter)
  then show ?thesis using Some by (auto simp: package_exists_hit)
qed

lemma probe_all_distinct:
  "distinct (map fst (cache s)) \<Longrightarrow> distinct (map fst (cache (probe_all env ks s)))"
  by (induction ks arbitrary: s) (auto simp: package_exists_distinct)

lemma retainedI:
  "distinct (map fst c) \<Longrightarrow> c = pre @ (k, v) # post \<Longrightarrow> fst ` set pre \<subseteq> K
     \<Longrightarrow> retained k v K c"
  unfolding retained_def by blast

lemma retained_map_of: "retained k v K c \<Longrightarrow> map_of c k = Some v"
proof -
  assume "retained k v K c"
  then obtain pre post where c: "c = pre @ (k, v) # post" and d: "distinct (map fst c)"
    by (auto simp: retained_def)
  from c d have "k \<notin> fst ` set pre" by auto
  then have "map_of pre k = None" by (simp add: map_of_eq_None_iff)
  with c show ?thesis by (simp add: map_add_def)
qed

text \<open>
  One probe keeps the entry of \<open>k\<close> as long as fewer than \<open>maxsize\<close> other keys have been
  used since \<open>k\<close> was: the entry can be the last of a full cache only when \<open>maxsize - 1\<close>
  distinct keys stand in front of it, and the probed key is one more.
\<close>

lemma retained_step:
  assumes r: "retained k v K (cache s)"
    and fin: "finite K'" and sub: "K \<subseteq> K'" and new: "(p, m) \<noteq> k \<Longrightarrow> (p, m) \<in> K'"
    and card: "card K' < maxsize"
  shows "retained k v K' (cache (snd (package_exists env p m s)))"
proof -
  from r obtain pre post where c: "cache s = pre @ (k, v) # post"
    and pre: "fst ` set pre \<subseteq> K" and d: "distinct (map fst (cache s))"
    by (auto simp: retained_def)
  have d': "distinct (map fst (cache (snd (package_exists env p m s))))"
    using d by (rule package_exists_distinct)
  show ?thesis
  proof (cases "(p, m) = k")
    case True
    have "map_of (cache s) (p, m) = Some v" using r True by (simp add: retained_map_of)
    then have "cache (snd (package_exists env p m s)) =
                 [] @ (k, v) # filter (\<lambda>e. fst e \<noteq> (p, m)) (cache s)"
      using True by (simp add: package_exists_hit)
    then show ?thesis by (rule retainedI [OF d']) simp
  next
    case False
    then have inK: "(p, m) \<in> K'" by (rule new)
    show ?thesis
    proof (cases "map_of (cache s) (p, m)")
      case (Some w)
      have "cache (snd (package_exists env p m s)) =
              (((p, m), w) # filter (\<lambda>e. fst e \<noteq> (p, m)) pre) @ (k, v) #
                 filter (\<lambda>e. fst e \<noteq> (p, m)) post"
        using Some False c by (simp add: package_exists_hit)
      moreover have "fst ` set (((p, m), w) # filter (\<lambda>e. fst e \<noteq> (p, m)) pre) \<subseteq> K'"
        using pre sub inK by auto
      ultimately show ?thesis by (rule retainedI [OF d'])
    next
      case None
      then have notin: "(p, m) \<notin> fst ` set (cache s)" by (simp add: map_of_eq_None_iff)
      show ?thesis
      proof (cases "package_exists_body (env (length (launched s))) p m")
        case (Inl e)
        then have "cache (snd (package_exists env p m s)) = cache s"
          using None by (simp add: package_exists_miss)
        then have "cache (snd (package_exists env p m s)) = pre @ (k, v) # post"
          using c by simp
        moreover have "fst ` set pre \<subseteq> K'" using pre sub by auto
        ultimately show ?thesis by (rule retainedI [OF d'])
      next
        case (Inr w)
        have keep: "(if length (cache s) \<ge> maxsize then butlast (cache s) else cache s) =
                      pre @ (k, v) # (if length (cache s) \<ge> maxsize then butlast post else post)"
        proof (cases "length (cache s) \<ge> maxsize")
          case full: True
          have "post \<noteq> []"
          proof
            assume "post = []"
            with c full have len: "maxsize \<le> Suc (length pre)" by simp
            have dp: "distinct (map fst pre)" using d c by simp
            have "(p, m) \<notin> fst ` set pre" using notin c by auto
            moreover have "card (set (map fst pre)) = length (map fst pre)"
              using dp by (rule distinct_card)
            ultimately have "card (insert (p, m) (fst ` set pre)) = Suc (length pre)"
              by simp
            moreover have "insert (p, m) (fst ` set pre) \<subseteq> K'" using pre sub inK by auto
            ultimately have "Suc (length pre) \<le> card K'" using fin by (metis card_mono)
            with len card show False by simp
          qed
          then show ?thesis using c full by (simp add: butlast_append)
        next
          case False
          then show ?thesis using c by simp
        qed
        have "cache (snd (package_exists env p m s)) =
                (((p, m), w) # pre) @ (k, v) #
                  (if length (cache s) \<ge> maxsize then butlast post else post)"
          using None Inr keep by (simp add: package_exists_miss)
        moreover have "fst ` set (((p, m), w) # pre) \<subseteq> K'" using pre sub inK by auto
        ultimately show ?thesis by (rule retainedI [OF d'])
      qed
    qed
  qed
qed

lemma retained_probe_all:
  assumes "retained k v K (cache s)" and "finite K"
    and "card (K \<union> (set ks - {k})) < maxsize"
  shows "retained k v (K \<union> (set ks - {k})) (cache (probe_all env ks s))"
  using assms
proof (induction ks arbitrary: s K)
  case Nil
  then show ?case by simp
next
  case (Cons a ks)
  obtain p m where a: "a = (p, m)" by (cases a)
  let ?K' = "K \<union> ({a} - {k})"
  have eq: "?K' \<union> (set ks - {k}) = K \<union> (set (a # ks) - {k})" by auto
  have fin: "finite ?K'" using Cons.prems(2) by simp
  have "card ?K' \<le> card (K \<union> (set (a # ks) - {k}))"
    by (rule card_mono) (use Cons.prems(2) in auto)
  then have c1: "card ?K' < maxsize" using Cons.prems(3) by simp
  have step: "retained k v ?K' (cache (snd (package_exists env p m s)))"
    by (rule retained_step [OF Cons.prems(1) fin _ _ c1]) (use a in auto)
  have "retained k v (?K' \<union> (set ks - {k}))
          (cache (probe_all env ks (snd (package_exists env p m s))))"
    by (rule Cons.IH [OF step fin]) (use Cons.prems(3) eq in simp)
  then show ?case using a eq by simp
qed

lemma package_exists_returns_cached:
  assumes "package_exists env n b s = (Inr v, s1)" and "distinct (map fst (cache s))"
  shows "retained (n, b) v {} (cache s1)"
proof -
  have d1: "distinct (map fst (cache s1))"
    using package_exists_distinct [OF assms(2), of env n b] assms(1) by simp
  have "\<exists>post. cache s1 = [] @ ((n, b), v) # post"
  proof (cases "map_of (cache s) (n, b)")
    case None
    then show ?thesis using assms(1) by (auto simp: package_exists_miss split: sum.splits)
  next
    case (Some w)
    then show ?thesis using assms(1) by (auto simp: package_exists_hit)
  qed
  then obtain post where "cache s1 = [] @ ((n, b), v) # post" by blast
  then show ?thesis by (rule retainedI [OF d1]) simp
qed

text \<open>
  C7, as the code has it. At any point of a run (after any probes \<open>pre\<close> from the empty
  cache), when a probe of (n, b) returns a value \<open>v\<close>, whichever it is, and the probes
  \<open>ks\<close> made afterwards use fewer than 128 distinct other pairs, the next probe of (n, b)
  returns \<open>v\<close> again and starts no process.
\<close>

theorem package_exists_memoised:
  assumes "package_exists env n b (probe_all env pre initial_state) = (Inr v, s1)"
    and "card (set ks - {(n, b)}) < maxsize"
  shows "fst (package_exists env n b (probe_all env ks s1)) = Inr v \<and>
         launched (snd (package_exists env n b (probe_all env ks s1))) =
           launched (probe_all env ks s1)"
proof -
  have "distinct (map fst (cache (probe_all env pre initial_state)))"
    by (rule probe_all_distinct) (simp add: initial_state_def)
  with assms(1) have "retained (n, b) v {} (cache s1)"
    by (rule package_exists_returns_cached)
  then have "retained (n, b) v ({} \<union> (set ks - {(n, b)})) (cache (probe_all env ks s1))"
    by (rule retained_probe_all) (use assms(2) in simp_all)
  then have "map_of (cache (probe_all env ks s1)) (n, b) = Some v"
    by (rule retained_map_of)
  then show ?thesis by (simp add: package_exists_hit)
qed

theorem package_exists_memoised_witness:
  "fst (package_exists always_found ''git'' ''apt''
         (probe_all always_found [(''vim'', ''apt''), (''git'', ''flatpak'')]
           (snd (package_exists always_found ''git'' ''apt'' initial_state)))) =
     Inr (PBool True) \<and>
   launched (snd (package_exists always_found ''git'' ''apt''
         (probe_all always_found [(''vim'', ''apt''), (''git'', ''flatpak'')]
           (snd (package_exists always_found ''git'' ''apt'' initial_state))))) =
     launched (probe_all always_found [(''vim'', ''apt''), (''git'', ''flatpak'')]
           (snd (package_exists always_found ''git'' ''apt'' initial_state)))"
proof -
  have f: "fst (package_exists always_found ''git'' ''apt'' initial_state) = Inr (PBool True)"
    by code_simp
  have h1: "package_exists always_found ''git'' ''apt'' (probe_all always_found [] initial_state) =
          (Inr (PBool True), snd (package_exists always_found ''git'' ''apt'' initial_state))"
    using f by (simp add: prod_eq_iff)
  have h2: "card (set [(''vim'', ''apt''), (''git'', ''flatpak'')] - {(''git'', ''apt'')}) < maxsize"
    by code_simp
  show ?thesis by (rule package_exists_memoised [OF h1 h2])
qed

text \<open>
  C7 as stated fails: the cache holds 128 entries. A probe of (git, apt) that finds the
  package, then probes of 128 distinct other pairs, then a probe of (git, apt) again:
  the search for git under apt is started twice.
\<close>

theorem package_exists_evicted_counterexample:
  "count_list
     (launched (probe_all always_found
        ((''git'', ''apt'') # filler_keys @ [(''git'', ''apt'')]) initial_state))
     [''apt'', ''search'', ''git''] = 2 \<and>
   fst (package_exists always_found ''git'' ''apt'' initial_state) = Inr (PBool True) \<and>
   length (remdups filler_keys) = 128"
  by code_simp

section \<open>Properties of the elevation\<close>

text \<open>
  Whenever the command table has the verb for the manager, \<open>requires_sudo\<close> holds for
  pacman and its five verbs only: the lists of the other managers name the verbs of the
  managers' own command lines, and the callers ask with the keys of the command table.
\<close>

lemma requires_sudo_mapped:
  "mapped_command manager verb = Inr base \<Longrightarrow>
     requires_sudo verb manager \<longleftrightarrow>
       manager = ''pacman'' \<and> verb \<in> set [''-S'', ''-R'', ''-Sy'', ''-Syu'', ''-Sc'']"
  unfolding mapped_command_def requires_sudo_def command_mappings_def
    sudo_required_commands_def
  by (auto split: if_splits)

text \<open>
  C3. Installing git with apt: the table \<open>sudo_required_commands\<close> lists \<open>install\<close> for
  apt, and \<open>install\<close> is the verb that \<open>-S\<close> stands for under apt, yet the command is
  built without \<open>sudo\<close>, also when the verb arrives as \<open>install\<close> and is translated.
  Under pacman the same verb is elevated.
\<close>

theorem build_command_apt_install_not_elevated:
  "build_command ''-S'' ''apt'' [''git''] = Inr [''apt'', ''install'', ''git''] \<and>
   build_command (translate_verb ''install'') ''apt'' [''git''] =
     Inr [''apt'', ''install'', ''git''] \<and>
   native_verb ''apt'' ''-S'' = Some ''install'' \<and>
   map_of sudo_required_commands ''apt'' =
     Some [''install'', ''remove'', ''update'', ''dist-upgrade'', ''autoremove''] \<and>
   build_command ''-S'' ''pacman'' [''git''] = Inr [''sudo'', ''pacman'', ''-S'', ''git'']"
  by code_simp

section \<open>Properties of the truncation\<close>

text \<open>
  C10. For every string \<open>s\<close>, \<open>truncate_text\<close> with the default width 22 returns a string
  of length at most 22, returns \<open>s\<close> itself exactly when \<open>s\<close> has at most 22 characters
  and otherwise the first 19 characters followed by three dots, and applied to its own
  result changes nothing.
\<close>

theorem truncate_text_total_bounded_idempotent:
  "length (truncate_text s 22) \<le> 22 \<and>
   (truncate_text s 22 = s \<longleftrightarrow> length s \<le> 22) \<and>
   (\<not> length s \<le> 22 \<longrightarrow> truncate_text s 22 = take 19 s @ ''...'') \<and>
   truncate_text (truncate_text s 22) 22 = truncate_text s 22"
proof -
  have neq: "take 19 s @ ''...'' \<noteq> s" if "\<not> length s \<le> 22"
  proof
    assume "take 19 s @ ''...'' = s"
    then have "length (take 19 s @ ''...'') = length s" by simp
    with that show False by simp
  qed
  then show ?thesis by (auto simp: truncate_text_def)
qed

theorem truncate_text_witness:
  "\<not> length ''abcdefghijklmnopqrstuvw'' \<le> 22 \<and>
   truncate_text ''abcdefghijklmnopqrstuvw'' 22 = ''abcdefghijklmnopqrs...''"
  using truncate_text_total_bounded_idempotent [of "''abcdefghijklmnopqrstuvw''"] by simp

section \<open>Properties of the resolver\<close>

lemma record_result_valid:
  "set (valid_options (record_result im manager package result st)) =
     set (valid_options st) \<union> (if result = PBool True then {manager} else {})"
  by (auto simp: record_result_def is_str_def)


lemma check_packages_valid:
  "check_packages probe im manager packages st = Inr st' \<Longrightarrow>
     set (valid_options st') =
       set (valid_options st) \<union> (if coverage probe packages manager \<noteq> [] then {manager} else {})"
proof (induction packages arbitrary: st)
  case Nil
  then show ?case by (simp add: coverage_def)
next
  case (Cons p ps)
  then obtain r where r: "probe p manager = Inr r" by (cases "probe p manager") auto
  with Cons.prems have "check_packages probe im manager ps (record_result im manager p r st) = Inr st'"
    by simp
  from Cons.IH [OF this] r show ?case
    by (auto simp: record_result_valid coverage_def filter_empty_conv)
qed

lemma check_repositories_valid:
  "check_repositories probe im managers packages st = Inr st' \<Longrightarrow>
     set (valid_options st') =
       set (valid_options st) \<union> {m \<in> set managers. coverage probe packages m \<noteq> []}"
proof (induction managers arbitrary: st)
  case Nil
  then show ?case by simp
next
  case (Cons m ms)
  then obtain st1 where s1: "check_packages probe im m packages st = Inr st1"
    by (cases "check_packages probe im m packages st") auto
  with Cons.prems have "check_repositories probe im ms packages st1 = Inr st'" by simp
  from Cons.IH [OF this] check_packages_valid [OF s1] show ?case by auto
qed



lemma select_repository_fields:
  assumes "select_repository probe packages repo_order install_mode = Inr res"
  obtains st where
    "check_repositories probe install_mode repo_order packages
       \<lparr>valid_options = [], flatpak_mismatches = [], available_packages = []\<rparr> = Inr st"
    "mismatches res = flatpak_mismatches st"
    "options res = (if valid_options st = [] then None
                    else Some (filter (\<lambda>mgr. mgr \<in> set (valid_options st)) repo_order))"
    "printed res =
       (if flatpak_mismatches st \<noteq> [] \<and> install_mode
        then MismatchHeader # map (\<lambda>(pkg, flatpak_name). MismatchLine pkg flatpak_name) (flatpak_mismatches st)
        else []) @
       (case options res of
          None \<Rightarrow> [NoRepositories packages]
        | Some opts \<Rightarrow> [SelectHeader packages] @
            map (\<lambda>(i, opt). OptionLine (Suc i) opt) (enumerate 0 opts) @
            [ExitLine (length opts + 1)])"
proof (cases "check_repositories probe install_mode repo_order packages
       \<lparr>valid_options = [], flatpak_mismatches = [], available_packages = []\<rparr>")
  case (Inl e)
  with assms show ?thesis by (simp add: select_repository_def)
next
  case (Inr st)
  with assms have "mismatches res = flatpak_mismatches st"
    "options res = (if valid_options st = [] then None
                    else Some (filter (\<lambda>mgr. mgr \<in> set (valid_options st)) repo_order))"
    "printed res =
       (if flatpak_mismatches st \<noteq> [] \<and> install_mode
        then MismatchHeader # map (\<lambda>(pkg, flatpak_name). MismatchLine pkg flatpak_name) (flatpak_mismatches st)
        else []) @
       (case options res of
          None \<Rightarrow> [NoRepositories packages]
        | Some opts \<Rightarrow> [SelectHeader packages] @
            map (\<lambda>(i, opt). OptionLine (Suc i) opt) (enumerate 0 opts) @
            [ExitLine (length opts + 1)])"
    by (auto simp: select_repository_def Let_def split: if_splits)
  with Inr that show ?thesis by blast
qed

text \<open>
  C9. When \<open>select_repository\<close> reaches the prompt, with at least one qualifying
  manager, the numbered list is the detection order \<open>repo_order\<close> restricted to the
  managers whose coverage is not empty, in that order.
\<close>

theorem select_repository_detection_order:
  assumes "select_repository probe packages repo_order install_mode = Inr res"
    and "options res = Some opts"
  shows "opts = filter (\<lambda>manager. coverage probe packages manager \<noteq> []) repo_order"
proof -
  from assms(1) obtain st where
    st: "check_repositories probe install_mode repo_order packages
       \<lparr>valid_options = [], flatpak_mismatches = [], available_packages = []\<rparr> = Inr st"
    and o: "options res = (if valid_options st = [] then None
                    else Some (filter (\<lambda>mgr. mgr \<in> set (valid_options st)) repo_order))"
    by (rule select_repository_fields)
  have v: "set (valid_options st) = {m \<in> set repo_order. coverage probe packages m \<noteq> []}"
    using check_repositories_valid [OF st] by simp
  from o assms(2) have "opts = filter (\<lambda>mgr. mgr \<in> set (valid_options st)) repo_order"
    by (simp split: if_splits)
  also have "\<dots> = filter (\<lambda>manager. coverage probe packages manager \<noteq> []) repo_order"
    unfolding v by (rule filter_cong) auto
  finally show ?thesis .
qed


theorem select_repository_detection_order_witness:
  "select_repository order_probe [''git'', ''vim''] [''snap'', ''apt''] False = Inr order_resolution \<and>
   options order_resolution = Some [''snap'', ''apt''] \<and>
   [''snap'', ''apt''] =
     filter (\<lambda>manager. coverage order_probe [''git'', ''vim''] manager \<noteq> []) [''snap'', ''apt''] \<and>
   length (coverage order_probe [''git'', ''vim''] ''snap'') = 1 \<and>
   length (coverage order_probe [''git'', ''vim''] ''apt'') = 2"
proof -
  have e: "select_repository order_probe [''git'', ''vim''] [''snap'', ''apt''] False =
             Inr order_resolution"
    by code_simp
  have o: "options order_resolution = Some [''snap'', ''apt'']"
    by (simp add: order_resolution_def)
  have c: "length (coverage order_probe [''git'', ''vim''] ''snap'') = 1 \<and>
           length (coverage order_probe [''git'', ''vim''] ''apt'') = 2"
    by code_simp
  show ?thesis
    using select_repository_detection_order [OF e o] e o c by simp
qed




section \<open>Properties of the comparison\<close>

lemma writes_Nil [simp]: "writes probe run p [] = []"
  by (simp add: writes_def map_filter_simps)

lemma writes_Cons:
  "writes probe run p ((m, pk) # order) =
     (if pk = p then (case fetch_package_info probe run m pk of
                        Inl e \<Rightarrow> writes probe run p order
                      | Inr cell \<Rightarrow> (m, cell) # writes probe run p order)
      else writes probe run p order)"
  by (simp add: writes_def map_filter_simps split: sum.splits)

lemma set_writes:
  "set (writes probe run p order) =
     {(m, cell). (m, p) \<in> set order \<and> fetch_package_info probe run m p = Inr cell}"
proof (induction order)
  case Nil
  then show ?case by simp
next
  case (Cons t order)
  obtain m pk where t: "t = (m, pk)" by (cases t)
  show ?case
  proof (cases "pk = p")
    case True
    show ?thesis
      unfolding t True
      by (cases "fetch_package_info probe run m p") (auto simp: writes_Cons Cons.IH)
  next
    case False
    then show ?thesis
      unfolding t by (auto simp: writes_Cons Cons.IH)
  qed
qed

lemma complete_task_apply:
  "complete_task probe run (m, pk) cd p =
     (if pk = p
      then (case fetch_package_info probe run m pk of
              Inl e \<Rightarrow> cd p
            | Inr cell \<Rightarrow>
                (case cd p of None \<Rightarrow> None | Some rows \<Rightarrow> Some (AList.update m cell rows)))
      else cd p)"
  by (simp add: complete_task_def split: sum.splits option.splits)

lemma fold_complete_task:
  "fold (complete_task probe run) order cd p =
     (case cd p of
        None \<Rightarrow> None
      | Some rows \<Rightarrow>
          Some (fold (\<lambda>(m, cell). AList.update m cell) (writes probe run p order) rows))"
proof (induction order arbitrary: cd)
  case Nil
  then show ?case by (simp split: option.splits)
next
  case (Cons t order)
  obtain m pk where t: "t = (m, pk)" by (cases t)
  have "fold (complete_task probe run) (t # order) cd p =
          fold (complete_task probe run) order (complete_task probe run (m, pk) cd) p"
    by (simp add: t)
  also have "\<dots> = (case complete_task probe run (m, pk) cd p of
        None \<Rightarrow> None
      | Some rows \<Rightarrow>
          Some (fold (\<lambda>(m, cell). AList.update m cell) (writes probe run p order) rows))"
    by (rule Cons.IH)
  also have "\<dots> = (case cd p of
        None \<Rightarrow> None
      | Some rows \<Rightarrow>
          Some (fold (\<lambda>(m, cell). AList.update m cell) (writes probe run p (t # order)) rows))"
  proof (cases "pk = p")
    case True
    show ?thesis
      unfolding t complete_task_apply writes_Cons True
      by (cases "fetch_package_info probe run m p") (simp_all split: option.splits)
  next
    case False
    then show ?thesis
      unfolding t complete_task_apply writes_Cons by simp
  qed
  finally show ?case .
qed

lemma rows_of_collected:
  "rows_of (collected probe run packages order) p =
     (if p \<in> set packages
      then fold (\<lambda>(m, cell). AList.update m cell) (writes probe run p order) []
      else [])"
  by (simp add: rows_of_def collected_def fold_complete_task initial_data_def)

lemma first_occurrences_snoc:
  "first_occurrences (xs @ [x]) =
     (if x \<in> set xs then first_occurrences xs else first_occurrences xs @ [x])"
  by (simp add: first_occurrences_def)

lemma keys_fold_update:
  "map fst (fold (\<lambda>(k, v). AList.update k v) ws []) = first_occurrences (map fst ws)"
proof (induction ws rule: rev_induct)
  case Nil
  then show ?case by (simp add: first_occurrences_def)
next
  case (snoc w ws)
  obtain k v where w: "w = (k, v)" by (cases w)
  have "set (first_occurrences (map fst ws)) = fst ` set ws"
    by (simp add: first_occurrences_def)
  with snoc show ?case
    unfolding w by (simp add: update_keys first_occurrences_snoc)
qed

lemma map_of_fold_update:
  assumes "\<And>k v. (k, v) \<in> set ws \<Longrightarrow> v = f k"
  shows "map_of (fold (\<lambda>(k, v). AList.update k v) ws rows) k =
           (if k \<in> fst ` set ws then Some (f k) else map_of rows k)"
  using assms
proof (induction ws arbitrary: rows)
  case Nil
  then show ?case by simp
next
  case (Cons w ws)
  obtain k' v' where w: "w = (k', v')" by (cases w)
  have v': "v' = f k'" using Cons.prems [of k' v'] w by simp
  have ih: "map_of (fold (\<lambda>(k, v). AList.update k v) ws (AList.update k' v' rows)) k =
           (if k \<in> fst ` set ws then Some (f k) else map_of (AList.update k' v' rows) k)"
    by (rule Cons.IH) (use Cons.prems in auto)
  show ?case
    unfolding w using ih v' by (auto simp: update_conv')
qed

lemma map_of_rows:
  "map_of (rows_of (collected probe run packages order) p) m =
     (if p \<in> set packages \<and> (m, p) \<in> set order
      then (case fetch_package_info probe run m p of Inl e \<Rightarrow> None | Inr cell \<Rightarrow> Some cell)
      else None)"
proof (cases "p \<in> set packages")
  case False
  then show ?thesis by (simp add: rows_of_collected)
next
  case True
  let ?f = "\<lambda>k. case fetch_package_info probe run k p of Inl e \<Rightarrow> [] | Inr cell \<Rightarrow> cell"
  have "map_of (fold (\<lambda>(k, v). AList.update k v) (writes probe run p order) []) m =
          (if m \<in> fst ` set (writes probe run p order) then Some (?f m) else map_of [] m)"
    by (rule map_of_fold_update) (auto simp: set_writes)
  moreover have "m \<in> fst ` set (writes probe run p order) \<longleftrightarrow>
      (m, p) \<in> set order \<and> (\<exists>cell. fetch_package_info probe run m p = Inr cell)"
    by (force simp: set_writes)
  ultimately show ?thesis using True
    by (auto simp: rows_of_collected split: sum.splits)
qed

lemma dep_commands_distinct:
  "map_of dep_commands m = Some b \<Longrightarrow> map_of dep_commands m' = Some b' \<Longrightarrow> m \<noteq> m'
     \<Longrightarrow> b @ [x] \<noteq> b' @ [y]"
  unfolding dep_commands_def by (auto split: if_splits)


lemma first_occurrences_distinct: "distinct xs \<Longrightarrow> first_occurrences xs = xs"
  by (simp add: first_occurrences_def distinct_remdups_id)

lemma first_occurrences_append_subset:
  "set ys \<subseteq> set xs \<Longrightarrow> first_occurrences (xs @ ys) = first_occurrences xs"
proof (induction ys rule: rev_induct)
  case Nil
  then show ?case by simp
next
  case (snoc y ys)
  then have "first_occurrences ((xs @ ys) @ [y]) = first_occurrences (xs @ ys)"
    by (simp only: first_occurrences_snoc) auto
  with snoc show ?case by simp
qed

lemma managers_of_submitted:
  "map fst (filter (\<lambda>task. snd task = p) (submitted packages managers)) =
     concat (map (\<lambda>pk. if pk = p then managers else []) packages)"
proof (induction packages)
  case Nil
  then show ?case by (simp add: submitted_def)
next
  case (Cons q qs)
  have "filter (\<lambda>task. snd task = p) (map (\<lambda>manager. (manager, q)) managers) =
          (if q = p then map (\<lambda>manager. (manager, q)) managers else [])"
    by (induction managers) auto
  with Cons show ?case by (simp add: submitted_def comp_def)
qed

lemma first_occurrences_submitted:
  assumes "p \<in> set packages" and "distinct managers"
  shows "first_occurrences (concat (map (\<lambda>pk. if pk = p then managers else []) packages)) =
           managers"
  using assms(1)
proof (induction packages)
  case Nil
  then show ?case by simp
next
  case (Cons q qs)
  show ?case
  proof (cases "q = p")
    case True
    have "set (concat (map (\<lambda>pk. if pk = p then managers else []) qs)) \<subseteq> set managers"
      by auto
    then have "first_occurrences (managers @ concat (map (\<lambda>pk. if pk = p then managers else []) qs)) =
                 first_occurrences managers"
      by (rule first_occurrences_append_subset)
    with True assms(2) show ?thesis by (simp add: first_occurrences_distinct)
  next
    case False
    with Cons show ?thesis by simp
  qed
qed

text \<open>
  C4, as the code has it. \<open>order\<close> is the order in which the tasks complete; it holds
  the submitted tasks and no others. For a requested package none of whose tasks ends in
  an exception, the table has exactly one row for each manager, a manager without the
  package has the row \<open>{"Error": "Not found"}\<close>, and the rows stand in the order in which
  the tasks of the package completed first; they stand in detection order when the
  tasks complete in the order of submission.
\<close>

theorem compare_packages_rows:
  assumes "set order = set (submitted packages available_managers)"
    and "distinct available_managers"
    and "package \<in> set packages"
    and "\<forall>manager \<in> set available_managers.
           \<exists>cell. fetch_package_info probe run manager package = Inr cell"
    and "rows = rows_of (collected probe run packages order) package"
  shows "map_of (compare_packages probe run packages order) package = Some (map table_row rows) \<and>
         map fst (map table_row rows) = map fst rows \<and>
         map fst rows = first_occurrences (map fst (filter (\<lambda>task. snd task = package) order)) \<and>
         distinct (map fst rows) \<and> set (map fst rows) = set available_managers \<and>
         length rows = length available_managers \<and>
         (\<forall>manager \<in> set available_managers. \<forall>v.
            probe package manager = Inr v \<and> \<not> truthy v \<longrightarrow>
            map_of rows manager = Some [(''Error'', ''Not found'')]) \<and>
         (order = submitted packages available_managers \<longrightarrow> map fst rows = available_managers)"
proof -
  have inorder: "(m, package) \<in> set order \<longleftrightarrow> m \<in> set available_managers" for m
    using assms(1,3) by (auto simp: submitted_def)
  have succ: "(m, package) \<in> set order \<Longrightarrow> \<exists>cell. fetch_package_info probe run m package = Inr cell" for m
    using inorder assms(4) by blast
  have w: "map fst (writes probe run package order) =
             map fst (filter (\<lambda>task. snd task = package) order)"
    using succ
  proof (induction order)
    case Nil
    then show ?case by simp
  next
    case (Cons t order)
    obtain m pk where t: "t = (m, pk)" by (cases t)
    have ih: "map fst (writes probe run package order) =
             map fst (filter (\<lambda>task. snd task = package) order)"
      by (rule Cons.IH) (use Cons.prems in auto)
    show ?case
    proof (cases "pk = package")
      case True
      then obtain cell where "fetch_package_info probe run m pk = Inr cell"
        using Cons.prems [of m] t by auto
      then show ?thesis using True ih t by (simp add: writes_Cons)
    next
      case False
      then show ?thesis using ih t by (simp add: writes_Cons)
    qed
  qed
  have rows: "rows = fold (\<lambda>(m, cell). AList.update m cell) (writes probe run package order) []"
    using assms(3,5) by (simp add: rows_of_collected)
  have keys: "map fst rows =
                first_occurrences (map fst (filter (\<lambda>task. snd task = package) order))"
    unfolding rows keys_fold_update w ..
  have d: "distinct (map fst rows)"
    unfolding keys by (simp add: first_occurrences_def)
  have s: "set (map fst rows) = set available_managers"
    unfolding keys using inorder by (force simp: first_occurrences_def)
  have "length (map fst rows) = length available_managers"
    using d s assms(2) by (metis distinct_card)
  then have l: "length rows = length available_managers" by simp
  have t1: "map_of (compare_packages probe run packages order) package = Some (map table_row rows)"
  proof -
    have "map_of (map (\<lambda>p. (p, f p)) ps) package = Some (f package)" if "package \<in> set ps"
      for f :: "string \<Rightarrow> (string \<times> string \<times> string \<times> string \<times> string) list" and ps
      using that by (induction ps) auto
    from this [OF assms(3)] show ?thesis
      by (simp add: compare_packages_def Let_def assms(5))
  qed
  have t2: "map fst (map table_row rows) = map fst rows"
    by (induction rows) (auto simp: table_row_def)
  have nf: "map_of rows manager = Some [(''Error'', ''Not found'')]"
    if "manager \<in> set available_managers" "probe package manager = Inr v" "\<not> truthy v"
    for manager v
  proof -
    have "fetch_package_info probe run manager package = Inr [(''Error'', ''Not found'')]"
      using that(2,3) by (simp add: fetch_package_info_def)
    then show ?thesis
      using that(1) inorder assms(3) unfolding assms(5) map_of_rows by simp
  qed
  have sub: "map fst rows = available_managers" if "order = submitted packages available_managers"
    unfolding keys that managers_of_submitted
    by (rule first_occurrences_submitted [OF assms(3,2)])
  show ?thesis using t1 t2 keys d s l nf sub by blast
qed

theorem compare_packages_rows_witness:
  "distinct (map fst (rows_of (collected bigpkg_probe bigpkg_run [''big-pkg'']
       [(''snap'', ''big-pkg''), (''apt'', ''big-pkg''), (''dnf'', ''big-pkg'')]) ''big-pkg'')) \<and>
   length (rows_of (collected bigpkg_probe bigpkg_run [''big-pkg'']
       [(''snap'', ''big-pkg''), (''apt'', ''big-pkg''), (''dnf'', ''big-pkg'')]) ''big-pkg'') =
     length [''dnf'', ''apt'', ''snap''] \<and>
   map_of (rows_of (collected bigpkg_probe bigpkg_run [''big-pkg'']
       [(''snap'', ''big-pkg''), (''apt'', ''big-pkg''), (''dnf'', ''big-pkg'')]) ''big-pkg'')
     ''snap'' = Some [(''Error'', ''Not found'')]"
proof -
  let ?rows = "rows_of (collected bigpkg_probe bigpkg_run [''big-pkg'']
       [(''snap'', ''big-pkg''), (''apt'', ''big-pkg''), (''dnf'', ''big-pkg'')]) ''big-pkg''"
  have h1: "set [(''snap'', ''big-pkg''), (''apt'', ''big-pkg''), (''dnf'', ''big-pkg'')] =
              set (submitted [''big-pkg''] [''dnf'', ''apt'', ''snap''])"
    by (auto simp: submitted_def)
  have h2: "distinct [''dnf'', ''apt'', ''snap'']" by simp
  have h3: "''big-pkg'' \<in> set [''big-pkg'']" by simp
  have f1: "fetch_package_info bigpkg_probe bigpkg_run ''dnf'' ''big-pkg'' =
              Inr [(''Version'', ''2.0'')]"
    by code_simp
  have f2: "fetch_package_info bigpkg_probe bigpkg_run ''apt'' ''big-pkg'' =
              Inr [(''Version'', ''1.0''), (''Size'', ''12 MB'')]"
    by code_simp
  have f3: "fetch_package_info bigpkg_probe bigpkg_run ''snap'' ''big-pkg'' =
              Inr [(''Error'', ''Not found'')]"
    by code_simp
  have h4: "\<forall>manager \<in> set [''dnf'', ''apt'', ''snap''].
              \<exists>cell. fetch_package_info bigpkg_probe bigpkg_run manager ''big-pkg'' = Inr cell"
    using f1 f2 f3 by simp
  have p: "bigpkg_probe ''big-pkg'' ''snap'' = Inr (PBool False) \<and> \<not> truthy (PBool False)"
    by (simp add: bigpkg_probe_def truthy_def)
  have s: "''snap'' \<in> set [''dnf'', ''apt'', ''snap'']" by simp
  note w = compare_packages_rows [OF h1 h2 h3 h4 refl]
  from w have a: "distinct (map fst ?rows)" by (elim conjE)
  from w have b: "length ?rows = length [''dnf'', ''apt'', ''snap'']" by (elim conjE)
  from w have "\<forall>manager \<in> set [''dnf'', ''apt'', ''snap'']. \<forall>v.
            bigpkg_probe ''big-pkg'' manager = Inr v \<and> \<not> truthy v \<longrightarrow>
            map_of ?rows manager = Some [(''Error'', ''Not found'')]" by (elim conjE)
  with s p have c: "map_of ?rows ''snap'' = Some [(''Error'', ''Not found'')]" by blast
  from a b c show ?thesis by (intro conjI)
qed

text \<open>
  C4 as stated fails. Comparing \<open>big-pkg\<close> across dnf and apt, in this order: when the
  apt task completes before the dnf task, the apt row is printed first; and when the
  dnf program cannot be started, the table has no dnf row at all.
\<close>

theorem compare_packages_order_counterexample:
  "set [(''apt'', ''big-pkg''), (''dnf'', ''big-pkg'')] =
     set (submitted [''big-pkg''] [''dnf'', ''apt'']) \<and>
   compare_packages bigpkg_probe bigpkg_run [''big-pkg'']
       [(''apt'', ''big-pkg''), (''dnf'', ''big-pkg'')] =
     [(''big-pkg'',
       [(''apt'', ''1.0'', ''12 MB'', ''No description'', ''None''),
        (''dnf'', ''2.0'', ''N/A'', ''No description'', ''None'')])] \<and>
   compare_packages bigpkg_probe dnf_missing_run [''big-pkg'']
       (submitted [''big-pkg''] [''dnf'', ''apt'']) =
     [(''big-pkg'', [(''apt'', ''1.0'', ''12 MB'', ''No description'', ''None'')])]"
proof (intro conjI)
  show "set [(''apt'', ''big-pkg''), (''dnf'', ''big-pkg'')] =
     set (submitted [''big-pkg''] [''dnf'', ''apt''])"
    by (auto simp: submitted_def)
  show "compare_packages bigpkg_probe bigpkg_run [''big-pkg'']
       [(''apt'', ''big-pkg''), (''dnf'', ''big-pkg'')] =
     [(''big-pkg'',
       [(''apt'', ''1.0'', ''12 MB'', ''No description'', ''None''),
        (''dnf'', ''2.0'', ''N/A'', ''No description'', ''None'')])]"
    by code_simp
  show "compare_packages bigpkg_probe dnf_missing_run [''big-pkg'']
       (submitted [''big-pkg''] [''dnf'', ''apt'']) =
     [(''big-pkg'', [(''apt'', ''1.0'', ''12 MB'', ''No description'', ''None'')])]"
    by code_simp
qed

text \<open>
  C8. When the detail query of one (package, manager) pair times out, the cell of that
  pair is \<open>{"Error": "Timeout"}\<close>, and the cell of every other manager, for every
  package, is what it is without the timeout, in the result of the task and in the
  collected table.
\<close>

theorem timeout_cell_isolated:
  assumes "probe package manager = Inr exists" and "truthy exists"
    and "map_of dep_commands manager = Some base"
    and "command = base @ [case exists of
                             PStr s \<Rightarrow> if manager = ''flatpak'' then s else package
                           | PBool _ \<Rightarrow> package]"
  shows "fetch_package_info probe (run(command := TimeoutExpired)) manager package =
           Inr [(''Error'', ''Timeout'')] \<and>
         (\<forall>other pkg. other \<noteq> manager \<longrightarrow>
            fetch_package_info probe (run(command := TimeoutExpired)) other pkg =
              fetch_package_info probe run other pkg) \<and>
         (\<forall>other pkg. other \<noteq> manager \<longrightarrow>
            map_of (rows_of (collected probe (run(command := TimeoutExpired)) packages order) pkg)
                other =
              map_of (rows_of (collected probe run packages order) pkg) other) \<and>
         (package \<in> set packages \<and> (manager, package) \<in> set order \<longrightarrow>
            map_of (rows_of (collected probe (run(command := TimeoutExpired)) packages order)
                package) manager =
              Some [(''Error'', ''Timeout'')])"
proof -
  let ?run' = "run(command := TimeoutExpired)"
  have a: "fetch_package_info probe ?run' manager package = Inr [(''Error'', ''Timeout'')]"
    using assms by (simp add: fetch_package_info_def Let_def)
  have b: "fetch_package_info probe ?run' other pkg = fetch_package_info probe run other pkg"
    if "other \<noteq> manager" for other pkg
  proof (cases "map_of dep_commands other")
    case None
    then show ?thesis
      by (cases "probe pkg other") (simp_all add: fetch_package_info_def Let_def)
  next
    case (Some base')
    have "base' @ [x] \<noteq> command" for x
      unfolding assms(4) using dep_commands_distinct [OF Some assms(3) that] by blast
    then show ?thesis using Some
      by (cases "probe pkg other") (simp_all add: fetch_package_info_def Let_def)
  qed
  have c: "map_of (rows_of (collected probe ?run' packages order) pkg) other =
             map_of (rows_of (collected probe run packages order) pkg) other"
    if "other \<noteq> manager" for other pkg
    unfolding map_of_rows b [OF that] ..
  have d: "map_of (rows_of (collected probe ?run' packages order) package) manager =
             Some [(''Error'', ''Timeout'')]"
    if "package \<in> set packages \<and> (manager, package) \<in> set order"
    unfolding map_of_rows using that a by simp
  show ?thesis using a b c d by blast
qed

theorem timeout_cell_isolated_witness:
  "fetch_package_info bigpkg_probe
       (bigpkg_run([''dnf'', ''info'', ''big-pkg''] := TimeoutExpired)) ''dnf'' ''big-pkg'' =
     Inr [(''Error'', ''Timeout'')] \<and>
   fetch_package_info bigpkg_probe
       (bigpkg_run([''dnf'', ''info'', ''big-pkg''] := TimeoutExpired)) ''apt'' ''big-pkg'' =
     Inr [(''Version'', ''1.0''), (''Size'', ''12 MB'')] \<and>
   map_of (rows_of (collected bigpkg_probe
       (bigpkg_run([''dnf'', ''info'', ''big-pkg''] := TimeoutExpired)) [''big-pkg'']
       [(''dnf'', ''big-pkg''), (''apt'', ''big-pkg'')]) ''big-pkg'') ''dnf'' =
     Some [(''Error'', ''Timeout'')]"
proof -
  let ?run' = "bigpkg_run([''dnf'', ''info'', ''big-pkg''] := TimeoutExpired)"
  let ?order = "[(''dnf'', ''big-pkg''), (''apt'', ''big-pkg'')]"
  have h1: "bigpkg_probe ''big-pkg'' ''dnf'' = Inr (PBool True)"
    by (simp add: bigpkg_probe_def)
  have h2: "truthy (PBool True)" by (simp add: truthy_def)
  have h3: "map_of dep_commands ''dnf'' = Some [''dnf'', ''info'']"
    by (simp add: dep_commands_def)
  have h4: "[''dnf'', ''info'', ''big-pkg''] =
              [''dnf'', ''info''] @
              [case PBool True of
                 PStr s \<Rightarrow> if ''dnf'' = ''flatpak'' then s else ''big-pkg''
               | PBool _ \<Rightarrow> ''big-pkg'']"
    by simp
  have f2: "fetch_package_info bigpkg_probe bigpkg_run ''apt'' ''big-pkg'' =
              Inr [(''Version'', ''1.0''), (''Size'', ''12 MB'')]"
    by code_simp
  have ne: "''apt'' \<noteq> ''dnf''" by simp
  have mem: "''big-pkg'' \<in> set [''big-pkg''] \<and> (''dnf'', ''big-pkg'') \<in> set ?order" by simp
  note w = timeout_cell_isolated [where probe = bigpkg_probe and package = "''big-pkg''"
      and manager = "''dnf''" and exists = "PBool True" and base = "[''dnf'', ''info'']"
      and command = "[''dnf'', ''info'', ''big-pkg'']" and run = bigpkg_run
      and packages = "[''big-pkg'']" and order = ?order, OF h1 h2 h3 h4]
  have a: "fetch_package_info bigpkg_probe ?run' ''dnf'' ''big-pkg'' =
      Inr [(''Error'', ''Timeout'')]"
    by (rule w [THEN conjunct1])
  have "fetch_package_info bigpkg_probe ?run' ''apt'' ''big-pkg'' =
        fetch_package_info bigpkg_probe bigpkg_run ''apt'' ''big-pkg''"
    by (rule w [THEN conjunct2, THEN conjunct1, rule_format, OF ne])
  then have b: "fetch_package_info bigpkg_probe ?run' ''apt'' ''big-pkg'' =
      Inr [(''Version'', ''1.0''), (''Size'', ''12 MB'')]"
    by (simp only: f2)
  have c: "map_of (rows_of (collected bigpkg_probe ?run' [''big-pkg''] ?order)
      ''big-pkg'') ''dnf'' = Some [(''Error'', ''Timeout'')]"
    by (rule w [THEN conjunct2, THEN conjunct2, THEN conjunct2, rule_format, OF mem])
  from a b c show ?thesis by (intro conjI)
qed

end
